theory Spec2Isabelle
  imports Complex_Main
begin

section \<open>The explicit finite-difference heat kernel of \<^verbatim>\<open>diffusion.py\<close>\<close>

text \<open>
  The module has two functions: \<^verbatim>\<open>step\<close>, one forward-time centred-space update of a
  temperature profile, and \<^verbatim>\<open>heat\<close>, the loop that derives the grid spacings and applies
  \<^verbatim>\<open>step\<close> \<^verbatim>\<open>nt - 1\<close> times.

  Numbers: in the first model a Python \<^verbatim>\<open>float\<close> is a \<^typ>\<open>real\<close> and all arithmetic is
  exact; it carries the claims whose content does not depend on rounding. A second model,
  further down, rounds every arithmetic result to the nearest double; it carries the claims
  about the stability gate and about exact fixed points, where rounding decides. The
  integer arguments \<^verbatim>\<open>nt\<close> and \<^verbatim>\<open>nx\<close> are unbounded Python ints, hence \<^typ>\<open>int\<close>.
  A profile is a Python list, hence a \<^typ>\<open>real list\<close>.

  Exceptions are values. The source raises a bare \<^verbatim>\<open>Exception\<close> when the stability ratio
  exceeds one half (the specification calls it the InstabilityError), and Python's true
  division raises \<^verbatim>\<open>ZeroDivisionError\<close> on a zero divisor. \<^verbatim>\<open>OverflowError\<close> is what
  \<^verbatim>\<open>dx ** 2\<close> raises when the square leaves the double range; it occurs only in the
  double-precision model further down.
\<close>

datatype error = Exception | ZeroDivisionError | OverflowError

subsection \<open>\<^verbatim>\<open>step\<close>\<close>

text \<open>
  \<^verbatim>\<open>r = alpha * dt / dx ** 2\<close> divides by \<^verbatim>\<open>dx ** 2\<close>, which raises when it is zero.
  The result list is \<^verbatim>\<open>u[:1] + [stencil at i for i in range(1, len(u) - 1)] + u[-1:]\<close>:
  \<^verbatim>\<open>u[:1]\<close> is \<^term>\<open>take 1 u\<close>, \<^verbatim>\<open>u[-1:]\<close> is \<^term>\<open>drop (length u - 1) u\<close> (both empty for
  the empty list, slices never raise), and \<^verbatim>\<open>range(1, len(u) - 1)\<close> is
  \<^term>\<open>[1..<length u - 1]\<close> (empty when \<^verbatim>\<open>len(u) \<le> 2\<close>). Inside the comprehension
  \<^verbatim>\<open>1 \<le> i \<le> len(u) - 2\<close>, so all three reads are in range.
\<close>

definition step :: "real list \<Rightarrow> real \<Rightarrow> real \<Rightarrow> real \<Rightarrow> error + real list" where
  "step u dx dt alpha =
     (if dx ^ 2 = 0 then Inl ZeroDivisionError
      else
        let r = alpha * dt / dx ^ 2 in
        if r > 1 / 2 then Inl Exception
        else Inr (take 1 u
                  @ map (\<lambda>i. r * u ! (i + 1) + (1 - 2 * r) * u ! i + r * u ! (i - 1))
                      [1..<length u - 1]
                  @ drop (length u - 1) u))"

subsection \<open>\<^verbatim>\<open>heat\<close>\<close>

text \<open>
  The body of \<^verbatim>\<open>for t in range(nt - 1): u = step(u, dx, dt, alpha)\<close>, run for a given
  number of remaining iterations. An exception raised by \<^verbatim>\<open>step\<close> leaves the loop at once.
\<close>

fun heat_loop :: "nat \<Rightarrow> real list \<Rightarrow> real \<Rightarrow> real \<Rightarrow> real \<Rightarrow> error + real list" where
  "heat_loop 0 u dx dt alpha = Inr u"
| "heat_loop (Suc n) u dx dt alpha =
     (case step u dx dt alpha of
        Inl e \<Rightarrow> Inl e
      | Inr u' \<Rightarrow> heat_loop n u' dx dt alpha)"

text \<open>
  \<^verbatim>\<open>dx = L / (nx - 1)\<close> and \<^verbatim>\<open>dt = tmax / (nt - 1)\<close> are computed first, in this order;
  each raises \<^verbatim>\<open>ZeroDivisionError\<close> on a zero divisor. \<^verbatim>\<open>range(nt - 1)\<close> has
  \<^term>\<open>nat (nt - 1)\<close> elements (none when \<^verbatim>\<open>nt \<le> 1\<close>).
\<close>

definition heat :: "real list \<Rightarrow> int \<Rightarrow> int \<Rightarrow> real \<Rightarrow> real \<Rightarrow> real \<Rightarrow> error + real list" where
  "heat u nt nx alpha L tmax =
     (if nx - 1 = 0 then Inl ZeroDivisionError
      else
        let dx = L / of_int (nx - 1) in
        if nt - 1 = 0 then Inl ZeroDivisionError
        else
          let dt = tmax / of_int (nt - 1) in
          heat_loop (nat (nt - 1)) u dx dt alpha)"

subsection \<open>The specification's reading of the driver\<close>

text \<open>
  The specification describes the driver as: apply the stencil step a given number of times
  in sequence, every application receiving the output of the previous one, and a failure
  of any application being the failure of the whole. \<open>step_after\<close> is one such application
  on the outcome so far; \<open>apply_steps n\<close> composes \<open>n\<close> of them.
\<close>

definition step_after :: "real \<Rightarrow> real \<Rightarrow> real \<Rightarrow> error + real list \<Rightarrow> error + real list" where
  "step_after dx dt alpha res =
     (case res of Inl e \<Rightarrow> Inl e | Inr v \<Rightarrow> step v dx dt alpha)"

definition apply_steps :: "nat \<Rightarrow> real \<Rightarrow> real \<Rightarrow> real \<Rightarrow> real list \<Rightarrow> error + real list" where
  "apply_steps n dx dt alpha u = (step_after dx dt alpha ^^ n) (Inr u)"

subsection \<open>The convergence test of \<^verbatim>\<open>test_diffusion.py\<close>\<close>

text \<open>
  \<^verbatim>\<open>linspace(start, stop, num)\<close> is
  \<^verbatim>\<open>[start + x * (stop - start) / (num - 1) for x in range(num)]\<close>. The division is
  evaluated once per element, so it raises exactly when \<^verbatim>\<open>num = 1\<close>; for \<^verbatim>\<open>num \<le> 0\<close>
  the range is empty and the result is the empty list.
\<close>

definition linspace :: "real \<Rightarrow> real \<Rightarrow> int \<Rightarrow> error + real list" where
  "linspace start stop num =
     (if num - 1 = 0 then Inl ZeroDivisionError
      else Inr (map (\<lambda>x. start + real x * (stop - start) / of_int (num - 1)) [0..<nat num]))"

text \<open>
  \<^verbatim>\<open>test_heat(L, tmax)\<close> fixes \<^verbatim>\<open>nt = 10\<close>, \<^verbatim>\<open>nx = 20\<close>, \<^verbatim>\<open>alpha = 0.01\<close>. Its initial
  profile is \<^verbatim>\<open>[0] + [math.sin(math.pi * x / L) for x in xs][1:-1] + [0]\<close>; the slice
  \<^verbatim>\<open>[1:-1]\<close> of a list is \<^term>\<open>butlast (tl l)\<close>. The division by \<^verbatim>\<open>L\<close> happens once per
  element of the comprehension.
\<close>

definition initial_profile :: "real \<Rightarrow> real list \<Rightarrow> error + real list" where
  "initial_profile L xs =
     (if L = 0 \<and> xs \<noteq> [] then Inl ZeroDivisionError
      else Inr ([0] @ butlast (tl (map (\<lambda>x. sin (pi * x / L)) xs)) @ [0]))"

text \<open>
  A proof device, not part of the source: the sampled first sine mode on \<open>N\<close> grid points,
  scaled by \<open>c\<close>. The test's initial profile is \<open>sine_mode 20 1\<close>, and \<^const>\<open>step\<close> maps
  a sine mode to a sine mode.
\<close>

definition sine_mode :: "nat \<Rightarrow> real \<Rightarrow> real list" where
  "sine_mode N c = map (\<lambda>k. c * sin (pi * real k / real (N - 1))) [0..<N]"

section \<open>The same functions in double-precision arithmetic\<close>

text \<open>
  Where the outcome turns on rounding, the exact model above is not the code: the gate
  \<^verbatim>\<open>r > 0.5\<close> tests the ratio as computed in IEEE-754 binary64, and the stencil sum is
  rounded after every operation. The second model below keeps the structure of the source
  and rounds each arithmetic result.

  \<open>rhe\<close> rounds a real to the nearest integer, ties to the even one. \<open>rn\<close> rounds a real to
  the nearest number with a 53-bit significand, ties to even: a non-zero \<open>x\<close> with
  \<open>2\<^sup>e \<le> |x| < 2\<^sup>e\<^sup>+\<^sup>1\<close> is rounded to a multiple of \<open>2\<^sup>e\<^sup>-\<^sup>5\<^sup>2\<close>. This is the rounding of \<^verbatim>\<open>*\<close>,
  \<^verbatim>\<open>/\<close>, \<^verbatim>\<open>+\<close>, \<^verbatim>\<open>-\<close> on Python floats and of the conversion of an \<^verbatim>\<open>int\<close> to a float, for
  results inside the normal range of doubles; the exponent is not bounded here, so
  overflow to infinity, gradual underflow and NaN are not part of this model.
\<close>

definition rhe :: "real \<Rightarrow> int" where
  "rhe q =
     (let f = \<lfloor>q\<rfloor> in
      if q - of_int f < 1 / 2 then f
      else if 1 / 2 < q - of_int f then f + 1
      else if even f then f else f + 1)"

definition rn :: "real \<Rightarrow> real" where
  "rn x =
     (if x = 0 then 0
      else of_int (rhe (x * 2 powr (52 - of_int \<lfloor>log 2 \<bar>x\<bar>\<rfloor>)))
             * 2 powr (of_int \<lfloor>log 2 \<bar>x\<bar>\<rfloor> - 52))"

text \<open>
  \<^verbatim>\<open>dx ** 2\<close> on a float calls the C library's \<^verbatim>\<open>pow\<close>, which is not required to round
  correctly and does not always return the rounded square. It is therefore a parameter
  \<open>pw\<close> of the model: \<open>pw dx\<close> is the value Python computes for \<^verbatim>\<open>dx ** 2\<close>, or the
  \<^verbatim>\<open>OverflowError\<close> it raises. \<open>pow_rounded\<close> is the instance that returns the correctly
  rounded square, which is what \<^verbatim>\<open>pow\<close> returns whenever the square is itself a double.
\<close>

definition pow_rounded :: "real \<Rightarrow> error + real" where
  "pow_rounded x = Inr (rn (x ^ 2))"

text \<open>
  \<^verbatim>\<open>r = alpha * dt / dx ** 2\<close>: the product is rounded, then \<^verbatim>\<open>dx ** 2\<close> is computed, then the
  quotient is rounded; a zero divisor raises.
\<close>

definition ratio_fl :: "(real \<Rightarrow> error + real) \<Rightarrow> real \<Rightarrow> real \<Rightarrow> real \<Rightarrow> error + real" where
  "ratio_fl pw dx dt alpha =
     (case pw dx of
        Inl e \<Rightarrow> Inl e
      | Inr d \<Rightarrow> if d = 0 then Inl ZeroDivisionError else Inr (rn (rn (alpha * dt) / d)))"

text \<open>
  \<^verbatim>\<open>r * u[i + 1] + (1 - 2 * r) * u[i] + r * u[i - 1]\<close>, evaluated left to right with every
  product, difference and sum rounded; \<open>a\<close>, \<open>b\<close>, \<open>c\<close> stand for \<^verbatim>\<open>u[i + 1]\<close>, \<^verbatim>\<open>u[i]\<close>,
  \<^verbatim>\<open>u[i - 1]\<close>.
\<close>

definition stencil_fl :: "real \<Rightarrow> real \<Rightarrow> real \<Rightarrow> real \<Rightarrow> real" where
  "stencil_fl r a b c = rn (rn (rn (r * a) + rn (rn (1 - rn (2 * r)) * b)) + rn (r * c))"

definition step_fl ::
  "(real \<Rightarrow> error + real) \<Rightarrow> real list \<Rightarrow> real \<Rightarrow> real \<Rightarrow> real \<Rightarrow> error + real list" where
  "step_fl pw u dx dt alpha =
     (case ratio_fl pw dx dt alpha of
        Inl e \<Rightarrow> Inl e
      | Inr r \<Rightarrow>
          if r > 1 / 2 then Inl Exception
          else Inr (take 1 u
                    @ map (\<lambda>i. stencil_fl r (u ! (i + 1)) (u ! i) (u ! (i - 1)))
                        [1..<length u - 1]
                    @ drop (length u - 1) u))"

fun heat_loop_fl ::
  "(real \<Rightarrow> error + real) \<Rightarrow> nat \<Rightarrow> real list \<Rightarrow> real \<Rightarrow> real \<Rightarrow> real \<Rightarrow> error + real list" where
  "heat_loop_fl pw 0 u dx dt alpha = Inr u"
| "heat_loop_fl pw (Suc n) u dx dt alpha =
     (case step_fl pw u dx dt alpha of
        Inl e \<Rightarrow> Inl e
      | Inr u' \<Rightarrow> heat_loop_fl pw n u' dx dt alpha)"

text \<open>
  In \<^verbatim>\<open>L / (nx - 1)\<close> and \<^verbatim>\<open>tmax / (nt - 1)\<close> the integer divisor is converted to a float
  (rounded when it has more than 53 bits) and the quotient is rounded.
\<close>

definition heat_fl ::
  "(real \<Rightarrow> error + real) \<Rightarrow> real list \<Rightarrow> int \<Rightarrow> int \<Rightarrow> real \<Rightarrow> real \<Rightarrow> real \<Rightarrow> error + real list" where
  "heat_fl pw u nt nx alpha L tmax =
     (if nx - 1 = 0 then Inl ZeroDivisionError
      else
        let dx = rn (L / rn (of_int (nx - 1))) in
        if nt - 1 = 0 then Inl ZeroDivisionError
        else
          let dt = rn (tmax / rn (of_int (nt - 1))) in
          heat_loop_fl pw (nat (nt - 1)) u dx dt alpha)"


section \<open>Basic facts about \<^const>\<open>step\<close>\<close>

lemma step_zero_dx: "step u 0 dt alpha = Inl ZeroDivisionError"
  by (simp add: step_def)


lemma step_Inr_length:
  assumes "step u dx dt alpha = Inr v" and "2 \<le> length u"
  shows "length v = length u"
  using assms by (auto simp: step_def Let_def split: if_splits)

lemma step_Inr_first:
  assumes "step u dx dt alpha = Inr v" and "1 \<le> length u"
  shows "v ! 0 = u ! 0"
  using assms by (cases u) (auto simp: step_def Let_def split: if_splits)

lemma step_Inr_last:
  assumes "step u dx dt alpha = Inr v" and "2 \<le> length u"
  shows "v ! (length u - 1) = u ! (length u - 1)"
  using assms by (auto simp: step_def Let_def nth_append split: if_splits)

lemma step_Inr_interior:
  assumes "step u dx dt alpha = Inr v" and "1 \<le> i" and "i + 1 < length u"
  shows "v ! i = (alpha * dt / dx ^ 2) * u ! (i + 1)
                 + (1 - 2 * (alpha * dt / dx ^ 2)) * u ! i
                 + (alpha * dt / dx ^ 2) * u ! (i - 1)"
  using assms by (auto simp: step_def Let_def nth_append split: if_splits)

lemma step_succeeds:
  assumes "dx \<noteq> 0" and "alpha * dt / dx ^ 2 \<le> 1 / 2"
  shows "\<exists>v. step u dx dt alpha = Inr v"
  using assms by (simp add: step_def Let_def)

section \<open>Basic facts about the loop of \<^const>\<open>heat\<close>\<close>

lemma heat_loop_succeeds:
  assumes "dx \<noteq> 0" and "alpha * dt / dx ^ 2 \<le> 1 / 2"
  shows "\<exists>v. heat_loop n u dx dt alpha = Inr v"
proof (induction n arbitrary: u)
  case 0
  show ?case by simp
next
  case (Suc n)
  from step_succeeds [OF assms] obtain u' where "step u dx dt alpha = Inr u'" by blast
  with Suc.IH [of u'] show ?case by simp
qed

lemma heat_loop_Inr_frame:
  assumes "heat_loop n u dx dt alpha = Inr v" and "2 \<le> length u"
  shows "length v = length u \<and> v ! 0 = u ! 0 \<and> v ! (length u - 1) = u ! (length u - 1)"
  using assms
proof (induction n arbitrary: u)
  case 0
  then show ?case by simp
next
  case (Suc n)
  from Suc.prems(1) obtain u' where s: "step u dx dt alpha = Inr u'"
    and l: "heat_loop n u' dx dt alpha = Inr v"
    by (auto split: sum.splits)
  have len: "length u' = length u" using step_Inr_length [OF s Suc.prems(2)] .
  have "length v = length u' \<and> v ! 0 = u' ! 0 \<and> v ! (length u' - 1) = u' ! (length u' - 1)"
    using Suc.IH [OF l] Suc.prems(2) len by simp
  moreover have "u' ! 0 = u ! 0" using step_Inr_first [OF s] Suc.prems(2) by simp
  moreover have "u' ! (length u - 1) = u ! (length u - 1)"
    using step_Inr_last [OF s Suc.prems(2)] .
  ultimately show ?case using len by simp
qed

lemma step_after_funpow_Inl: "(step_after dx dt alpha ^^ n) (Inl e) = Inl e"
  by (induction n) (simp_all add: step_after_def)

lemma heat_loop_apply_steps: "heat_loop n u dx dt alpha = apply_steps n dx dt alpha u"
proof (induction n arbitrary: u)
  case 0
  show ?case by (simp add: apply_steps_def)
next
  case (Suc n)
  have unroll: "apply_steps (Suc n) dx dt alpha u
                  = (step_after dx dt alpha ^^ n) (step u dx dt alpha)"
    by (simp add: apply_steps_def funpow_swap1 step_after_def)
  show ?case
  proof (cases "step u dx dt alpha")
    case (Inl e)
    then show ?thesis using unroll by (simp add: step_after_funpow_Inl)
  next
    case (Inr u')
    then show ?thesis using unroll Suc.IH [of u'] by (simp add: apply_steps_def)
  qed
qed

section \<open>Claims about \<^const>\<open>step\<close> and \<^const>\<open>heat\<close>\<close>



text \<open>
  Claim C3. Boundary invariance: on a profile of length at least three, whenever
  \<^const>\<open>step\<close> returns a profile, that profile has the length, the first entry and the last
  entry of the input; the same holds for the profile returned after any number \<open>n\<close> of loop
  iterations, and for the profile returned by \<^const>\<open>heat\<close>.
\<close>

theorem boundary_invariance:
  assumes "3 \<le> length u"
  shows "(step u dx dt alpha = Inr v \<longrightarrow>
            length v = length u \<and> v ! 0 = u ! 0 \<and> v ! (length v - 1) = u ! (length u - 1))
       \<and> (heat_loop n u dx dt alpha = Inr w \<longrightarrow>
            length w = length u \<and> w ! 0 = u ! 0 \<and> w ! (length w - 1) = u ! (length u - 1))
       \<and> (heat u nt nx alpha L tmax = Inr z \<longrightarrow>
            length z = length u \<and> z ! 0 = u ! 0 \<and> z ! (length z - 1) = u ! (length u - 1))"
proof (intro conjI impI)
  have two: "2 \<le> length u" using assms by simp
  {
    assume s: "step u dx dt alpha = Inr v"
    show "length v = length u" using step_Inr_length [OF s two] .
    show "v ! 0 = u ! 0" using step_Inr_first [OF s] two by simp
    show "v ! (length v - 1) = u ! (length u - 1)"
      using step_Inr_last [OF s two] step_Inr_length [OF s two] by simp
  }
  {
    assume l: "heat_loop n u dx dt alpha = Inr w"
    show "length w = length u" "w ! 0 = u ! 0" "w ! (length w - 1) = u ! (length u - 1)"
      using heat_loop_Inr_frame [OF l two] by simp_all
  }
  {
    assume h: "heat u nt nx alpha L tmax = Inr z"
    then have "heat_loop (nat (nt - 1)) u (L / of_int (nx - 1)) (tmax / of_int (nt - 1)) alpha
                 = Inr z"
      by (simp add: heat_def Let_def split: if_splits)
    from heat_loop_Inr_frame [OF this two]
    show "length z = length u" "z ! 0 = u ! 0" "z ! (length z - 1) = u ! (length u - 1)"
      by simp_all
  }
qed

theorem boundary_invariance_witness:
  "3 \<le> length [3, 1, 5 :: real]
   \<and> step [3, 1, 5] 1 1 (1 / 4) = Inr [3, 5 / 2, 5]
   \<and> heat_loop 2 [3, 1, 5] 1 1 (1 / 4) = Inr [3, 13 / 4, 5]
   \<and> heat [3, 1, 5] 3 3 (1 / 4) 2 2 = Inr [3, 13 / 4, 5]
   \<and> [3, 5 / 2, 5 :: real] ! 0 = [3, 1, 5] ! 0
   \<and> [3, 5 / 2, 5 :: real] ! (length [3, 5 / 2, 5 :: real] - 1) = [3, 1, 5] ! (length [3, 1, 5 :: real] - 1)
   \<and> [3, 13 / 4, 5 :: real] ! 0 = [3, 1, 5] ! 0
   \<and> [3, 13 / 4, 5 :: real] ! (length [3, 13 / 4, 5 :: real] - 1) = [3, 1, 5] ! (length [3, 1, 5 :: real] - 1)"
  using boundary_invariance [of "[3, 1, 5]" 1 1 "1 / 4" "[3, 5 / 2, 5]" 2 "[3, 13 / 4, 5]"
      3 3 2 2 "[3, 13 / 4, 5]"]
  by (simp add: step_def heat_def numeral_2_eq_2)

text \<open>With both divisors non-zero, \<^const>\<open>heat\<close> is its loop on the derived spacings.\<close>

lemma heat_unfold:
  assumes "nt \<noteq> 1" and "nx \<noteq> 1"
  shows "heat u nt nx alpha L tmax
           = heat_loop (nat (nt - 1)) u (L / of_int (nx - 1)) (tmax / of_int (nt - 1)) alpha"
  using assms by (simp add: heat_def Let_def)

text \<open>
  Claim C4. For \<open>nt \<ge> 2\<close> and \<open>nx \<ge> 3\<close>, \<^const>\<open>heat\<close> computes \<open>dx = L / (nx - 1)\<close> and
  \<open>dt = tmax / (nt - 1)\<close> and returns what \<open>nt - 1\<close> applications of \<^const>\<open>step\<close> in sequence
  return, each application taking the output of the previous one, with the same \<open>dx\<close>,
  \<open>dt\<close> and \<open>alpha\<close> throughout. This holds for every \<open>alpha\<close>, \<open>L\<close> and \<open>tmax\<close>, positive or not.
\<close>

theorem heat_is_iterated_step:
  assumes "2 \<le> nt" and "3 \<le> nx"
  shows "heat u nt nx alpha L tmax
           = apply_steps (nat (nt - 1)) (L / of_int (nx - 1)) (tmax / of_int (nt - 1)) alpha u"
proof -
  from assms have "nt \<noteq> 1" and "nx \<noteq> 1" by simp_all
  then show ?thesis by (simp add: heat_unfold heat_loop_apply_steps)
qed

theorem heat_is_iterated_step_witness:
  "(2::int) \<le> 3 \<and> (3::int) \<le> 3
   \<and> heat [0, 1, 0] 3 3 (1 / 8) 1 1 = apply_steps 2 (1 / 2) (1 / 2) (1 / 8) [0, 1, 0]
   \<and> apply_steps 2 (1 / 2) (1 / 2) (1 / 8) [0, 1, 0] = Inr [0, 1 / 4, 0]"
  using heat_is_iterated_step [of 3 3 "[0, 1, 0]" "1 / 8" 1 1]
  by (simp add: apply_steps_def step_after_def step_def numeral_2_eq_2 power2_eq_square)

text \<open>
  Claim C6 says that \<^const>\<open>heat\<close> with \<open>nt = 1\<close> returns the initial profile unchanged. The
  source computes \<open>dt = tmax / (nt - 1)\<close> before the loop, which divides by zero: on the
  profile \<open>[0, 1, 0]\<close> with \<open>nx = 3\<close> nothing is returned.
\<close>

theorem heat_nt_1_counterexample: "heat [0, 1, 0] 1 3 (1 / 100) 1 1 \<noteq> Inr [0, 1, 0]"
  by (simp add: heat_def)

text \<open>
  Claim C6, amended: for every profile and every \<open>nx\<close>, \<open>alpha\<close>, \<open>L\<close> and \<open>tmax\<close>,
  \<^const>\<open>heat\<close> called with \<open>nt = 1\<close> raises \<^verbatim>\<open>ZeroDivisionError\<close> and returns no profile.
\<close>

theorem heat_nt_1_raises: "heat u 1 nx alpha L tmax = Inl ZeroDivisionError"
  by (simp add: heat_def Let_def)

text \<open>
  Claim C7. On the profile \<open>[0, 1, 1, 0]\<close> with \<open>dx = 0.04\<close>, \<open>dt = 0.02\<close> and \<open>alpha = 0.01\<close>
  (ratio \<open>0.125\<close>), \<^const>\<open>step\<close> returns \<open>[0, 0.875, 0.875, 0]\<close>.
\<close>

theorem step_exact_example:
  "step [0, 1, 1, 0] 0.04 0.02 0.01 = Inr [0, 0.875, 0.875, 0]"
  by (simp add: step_def Let_def power2_eq_square numeral_eq_Suc)



section \<open>Convergence on the first sine mode\<close>

subsection \<open>Elementary bounds on \<open>sin\<close> and \<open>exp\<close>\<close>

lemma sin_cubic_lower:
  fixes x :: real
  assumes "0 \<le> x"
  shows "x - x ^ 3 / 6 \<le> sin x"
proof -
  have "(\<Sum>m<3. sin_coeff m * x ^ m) = x"
    by (simp add: numeral_3_eq_3 sin_coeff_Suc cos_coeff_Suc)
  with Maclaurin_sin_bound [of x 3] have b: "\<bar>sin x - x\<bar> \<le> inverse (fact 3) * \<bar>x\<bar> ^ 3"
    by simp
  have f: "inverse (fact 3 :: real) = 1 / 6"
    by (simp add: numeral_3_eq_3)
  have a: "\<bar>x\<bar> = x" using assms by simp
  from b have "\<bar>sin x - x\<bar> \<le> 1 / 6 * x ^ 3" unfolding f a .
  then show ?thesis by linarith
qed

lemma sin_squared_bounds:
  fixes x :: real
  assumes "0 \<le> x" and "x \<le> 1"
  shows "x ^ 2 - x ^ 4 / 3 \<le> (sin x) ^ 2" and "(sin x) ^ 2 \<le> x ^ 2"
proof -
  have up: "sin x \<le> x" using assms(1) by (rule sin_x_le_x)
  have lo: "x - x ^ 3 / 6 \<le> sin x" using assms(1) by (rule sin_cubic_lower)
  have "x ^ 3 \<le> x ^ 1" using assms by (intro power_decreasing) simp_all
  then have "x ^ 3 \<le> x" by simp
  then have nn: "0 \<le> x - x ^ 3 / 6" using assms(1) by linarith
  then have s0: "0 \<le> sin x" using lo by linarith
  show "(sin x) ^ 2 \<le> x ^ 2" using up s0 by (rule power_mono)
  have "(x - x ^ 3 / 6) ^ 2 \<le> (sin x) ^ 2" using lo nn by (rule power_mono)
  moreover have "(x - x ^ 3 / 6) ^ 2 = x ^ 2 - x ^ 4 / 3 + x ^ 6 / 36"
    by (simp add: power2_eq_square algebra_simps power3_eq_cube power4_eq_xxxx eval_nat_numeral)
  moreover have "0 \<le> x ^ 6 / 36" using assms(1) by simp
  ultimately show "x ^ 2 - x ^ 4 / 3 \<le> (sin x) ^ 2" by linarith
qed

lemma exp_minus_bounds:
  fixes y :: real
  assumes "0 \<le> y"
  shows "1 - y \<le> exp (- y)" and "exp (- y) \<le> 1 - y + y ^ 2"
proof -
  show "1 - y \<le> exp (- y)" using exp_ge_add_one_self [of "- y"] by simp
  have pos: "0 < 1 + y" using assms by simp
  have "1 + y \<le> exp y" by (rule exp_ge_add_one_self)
  then have "inverse (exp y) \<le> inverse (1 + y)" using pos by (rule le_imp_inverse_le)
  moreover have "inverse (1 + y) \<le> 1 - y + y ^ 2"
  proof -
    have "1 \<le> (1 - y + y ^ 2) * (1 + y)"
      using assms by (simp add: algebra_simps power2_eq_square)
    then show ?thesis using pos by (simp add: inverse_eq_divide pos_divide_le_eq)
  qed
  ultimately show "exp (- y) \<le> 1 - y + y ^ 2" by (simp add: exp_minus)
qed

lemma power_diff_le:
  fixes p q :: real
  assumes "0 \<le> p" "p \<le> 1" "0 \<le> q" "q \<le> 1"
  shows "\<bar>p ^ m - q ^ m\<bar> \<le> real m * \<bar>p - q\<bar>"
  using norm_power_diff [of p q m] assms by simp

lemma decay_factor_close:
  fixes c x :: real
  assumes c: "0 \<le> c" "c \<le> 2" and x: "0 \<le> x" "x \<le> 2 / 19"
  shows "\<bar>(1 - c * (sin x) ^ 2) ^ 9 - exp (- (9 * (c * x ^ 2)))\<bar> \<le> 1 / 100"
proof -
  define y where "y = c * x ^ 2"
  define p where "p = 1 - c * (sin x) ^ 2"
  define q where "q = exp (- y)"
  have x1: "x \<le> 1" using x by simp
  have x2: "x ^ 2 \<le> (2 / 19) ^ 2" using x by (intro power_mono) simp_all
  have x2': "x ^ 2 \<le> 4 / 361" using x2 by (simp add: power2_eq_square)
  have x4: "x ^ 4 \<le> (4 / 361) ^ 2"
  proof -
    have "(x ^ 2) ^ 2 \<le> (4 / 361) ^ 2" using x2' by (intro power_mono) simp_all
    then show ?thesis by simp
  qed
  have y0: "0 \<le> y" using c x by (simp add: y_def)
  have "y \<le> 2 * (4 / 361)" unfolding y_def using c x2' by (intro mult_mono) simp_all
  then have y1: "y \<le> 8 / 361" by simp
  have y2: "y ^ 2 \<le> (8 / 361) ^ 2" using y0 y1 by (intro power_mono) simp_all
  have s_lo: "x ^ 2 - x ^ 4 / 3 \<le> (sin x) ^ 2" and s_up: "(sin x) ^ 2 \<le> x ^ 2"
    using sin_squared_bounds [OF x(1) x1] by simp_all
  have p_lo: "1 - y \<le> p"
  proof -
    have "c * (sin x) ^ 2 \<le> c * x ^ 2" using s_up c(1) by (rule mult_left_mono)
    then show ?thesis by (simp add: p_def y_def)
  qed
  have p_up: "p \<le> 1 - y + c * (x ^ 4 / 3)"
  proof -
    have "c * (x ^ 2 - x ^ 4 / 3) \<le> c * (sin x) ^ 2" using s_lo c(1) by (rule mult_left_mono)
    then show ?thesis by (simp add: p_def y_def algebra_simps)
  qed
  have cx4: "c * (x ^ 4 / 3) \<le> 2 * ((4 / 361) ^ 2 / 3)"
    using c x4 by (intro mult_mono) simp_all
  have q_lo: "1 - y \<le> q" and q_up: "q \<le> 1 - y + y ^ 2"
    using exp_minus_bounds [OF y0] by (simp_all add: q_def)
  have p01: "0 \<le> p" "p \<le> 1"
  proof -
    show "0 \<le> p" using p_lo y1 by simp
    have "0 \<le> c * (sin x) ^ 2" using c(1) by simp
    then show "p \<le> 1" by (simp add: p_def)
  qed
  have q01: "0 \<le> q" "q \<le> 1" using y0 by (simp_all add: q_def)
  have "\<bar>p - q\<bar> \<le> (8 / 361) ^ 2"
  proof -
    have "p - q \<le> c * (x ^ 4 / 3)" using p_up q_lo by linarith
    moreover have "q - p \<le> y ^ 2" using q_up p_lo by linarith
    moreover have "2 * ((4 / 361) ^ 2 / 3) \<le> ((8 / 361) ^ 2 :: real)"
      by (simp add: power2_eq_square)
    ultimately show ?thesis using cx4 y2 by linarith
  qed
  then have "real 9 * \<bar>p - q\<bar> \<le> 9 * (8 / 361) ^ 2" by simp
  moreover have "\<bar>p ^ 9 - q ^ 9\<bar> \<le> real 9 * \<bar>p - q\<bar>"
    using p01 q01 by (rule power_diff_le)
  moreover have "9 * (8 / 361) ^ 2 \<le> (1 / 100 :: real)" by (simp add: power2_eq_square)
  ultimately have "\<bar>p ^ 9 - q ^ 9\<bar> \<le> 1 / 100" by linarith
  moreover have "q ^ 9 = exp (- (9 * (c * x ^ 2)))"
    using exp_of_nat_mult [of 9 "- y"] by (simp add: q_def y_def)
  ultimately show ?thesis by (simp add: p_def)
qed

subsection \<open>The sampled sine mode under \<^const>\<open>step\<close>\<close>

text \<open>
  The sine mode is an eigenvector of the stencil: one step scales it by
  \<open>1 - 2r (1 - cos (pi / (N - 1)))\<close> and keeps the zero boundary entries.
\<close>

lemma linspace_20: "linspace 0 L 20 = Inr (map (\<lambda>k. real k * L / 19) [0..<20])"
  by (simp add: linspace_def)

lemma ends_replaced:
  assumes "2 \<le> n"
  shows "[a] @ butlast (tl (map f [0..<n])) @ [b]
           = map (\<lambda>k. if k = 0 then a else if k = n - 1 then b else f k) [0..<n]"
proof (rule nth_equalityI)
  show "length ([a] @ butlast (tl (map f [0..<n])) @ [b])
          = length (map (\<lambda>k. if k = 0 then a else if k = n - 1 then b else f k) [0..<n])"
    using assms by simp
next
  fix i
  assume "i < length ([a] @ butlast (tl (map f [0..<n])) @ [b])"
  then have i: "i < n" using assms by simp
  consider "i = 0" | "i = n - 1" "i \<noteq> 0" | "1 \<le> i" "i + 1 < n" using i by linarith
  then show "([a] @ butlast (tl (map f [0..<n])) @ [b]) ! i
          = map (\<lambda>k. if k = 0 then a else if k = n - 1 then b else f k) [0..<n] ! i"
  proof cases
    case 1
    then show ?thesis using assms by simp
  next
    case 2
    then show ?thesis using assms i by (simp add: nth_append nth_Cons')
  next
    case 3
    then have "butlast (tl (map f [0..<n])) ! (i - 1) = f i"
      by (simp add: nth_butlast nth_tl)
    moreover have "i - Suc 0 < n - Suc (Suc 0)" using 3 by linarith
    moreover have "i \<noteq> n - Suc 0" and "i \<noteq> 0" using 3 by linarith+
    ultimately show ?thesis using 3 i by (simp add: nth_append nth_Cons')
  qed
qed

lemma initial_profile_sine_mode:
  assumes "L \<noteq> 0"
  shows "initial_profile L (map (\<lambda>k. real k * L / 19) [0..<20]) = Inr (sine_mode 20 1)"
proof -
  have "[0] @ butlast (tl (map (\<lambda>x. sin (pi * x / L)) (map (\<lambda>k. real k * L / 19) [0..<20]))) @ [0]
          = map (\<lambda>k. if k = 0 then 0 else if k = 20 - 1 then 0
                       else sin (pi * (real k * L / 19) / L)) [0..<20]"
    unfolding map_map comp_def by (rule ends_replaced) simp
  also have "\<dots> = sine_mode 20 1"
    unfolding sine_mode_def using assms by (intro map_cong refl) auto
  finally show ?thesis using assms by (simp add: initial_profile_def)
qed

lemma step_sine_mode:
  assumes N: "2 \<le> N" and dx: "dx \<noteq> 0" and r: "alpha * dt / dx ^ 2 \<le> 1 / 2"
  shows "step (sine_mode N c) dx dt alpha
           = Inr (sine_mode N (c * (1 - 2 * (alpha * dt / dx ^ 2) * (1 - cos (pi / real (N - 1))))))"
proof -
  define r where "r = alpha * dt / dx ^ 2"
  define th where "th = pi / real (N - 1)"
  have th: "pi * real k / real (N - 1) = th * real k" for k by (simp add: th_def)
  have nth: "sine_mode N a ! k = a * sin (th * real k)" if "k < N" for a k
    using that unfolding sine_mode_def th by simp
  have last0: "sin (th * real (N - 1)) = 0"
  proof -
    have "th * real (N - 1) = pi" using N by (simp add: th_def)
    then show ?thesis by simp
  qed
  from step_succeeds [OF dx r] obtain v
    where s: "step (sine_mode N c) dx dt alpha = Inr v" by blast
  have lenu: "length (sine_mode N c) = N" by (simp add: sine_mode_def)
  have len: "length v = N" using step_Inr_length [OF s] N lenu by simp
  have "v ! i = sine_mode N (c * (1 - 2 * r * (1 - cos th))) ! i" if iN: "i < N" for i
  proof -
    consider "i = 0" | "i = N - 1" | "1 \<le> i" "i + 1 < N" using iN by linarith
    then show ?thesis
    proof cases
      case 1
      then have "v ! i = sine_mode N c ! 0" using step_Inr_first [OF s] N lenu by simp
      then show ?thesis using 1 iN by (simp add: nth)
    next
      case 2
      then have "v ! i = sine_mode N c ! (N - 1)" using step_Inr_last [OF s] N lenu by simp
      then show ?thesis using 2 iN last0 by (simp add: nth)
    next
      case 3
      have "v ! i = r * sine_mode N c ! (i + 1) + (1 - 2 * r) * sine_mode N c ! i
                    + r * sine_mode N c ! (i - 1)"
        unfolding r_def using 3 lenu by (intro step_Inr_interior [OF s]) simp_all
      also have "\<dots> = r * (c * sin (th * real i + th)) + (1 - 2 * r) * (c * sin (th * real i))
                    + r * (c * sin (th * real i - th))"
      proof -
        have "th * real (i + 1) = th * real i + th" by (simp add: algebra_simps)
        moreover have "th * real (i - 1) = th * real i - th"
          using 3 by (simp add: algebra_simps)
        ultimately show ?thesis using 3 iN by (simp add: nth)
      qed
      also have "\<dots> = (c * (1 - 2 * r * (1 - cos th))) * sin (th * real i)"
        by (simp add: sin_add sin_diff algebra_simps)
      finally show ?thesis using iN by (simp add: nth)
    qed
  qed
  then have "v = sine_mode N (c * (1 - 2 * r * (1 - cos th)))"
    using len by (intro nth_equalityI) (simp_all add: sine_mode_def)
  with s show ?thesis by (simp add: r_def th_def)
qed

lemma heat_loop_sine_mode:
  assumes N: "2 \<le> N" and dx: "dx \<noteq> 0" and r: "alpha * dt / dx ^ 2 \<le> 1 / 2"
  shows "heat_loop n (sine_mode N c) dx dt alpha
           = Inr (sine_mode N (c * (1 - 2 * (alpha * dt / dx ^ 2) * (1 - cos (pi / real (N - 1)))) ^ n))"
proof (induction n arbitrary: c)
  case 0
  show ?case by simp
next
  case (Suc n)
  show ?case by (simp add: step_sine_mode [OF assms] Suc.IH mult.assoc)
qed

subsection \<open>The numerical solution against the analytical one\<close>

text \<open>
  After nine steps the mode is scaled by \<open>(1 - 4r sin\<^sup>2 (pi / 38))\<^sup>9\<close>, while the analytical
  decay factor is \<open>exp (- 4r (pi / 38)\<^sup>2)\<^sup>9\<close>; the two differ by less than the tolerance
  whenever \<open>r \<le> 1 / 2\<close>.
\<close>

lemma test_heat_close:
  assumes L: "0 < L" and t: "0 \<le> tmax" and small: "361 * tmax \<le> 450 * L ^ 2"
  shows "\<exists>xs u v. linspace 0 L 20 = Inr xs \<and> initial_profile L xs = Inr u
            \<and> heat u 10 20 (1 / 100) L tmax = Inr v
            \<and> length xs = 20 \<and> length v = 20
            \<and> (\<forall>i. 1 \<le> i \<and> i \<le> 18 \<longrightarrow>
                  \<bar>v ! i - sin (pi * (xs ! i) / L) * exp (- tmax * (1 / 100) * (pi / L) ^ 2)\<bar>
                    \<le> 1 / 100)"
proof -
  define xs where "xs = map (\<lambda>k. real k * L / 19) [0..<20]"
  define r where "r = (1 / 100) * (tmax / 9) / (L / 19) ^ 2"
  define c where "c = 4 * r"
  define x where "x = pi / 38"
  define g where "g = 1 - 2 * r * (1 - cos (pi / real (20 - 1)))"
  define e where "e = exp (- tmax * (1 / 100) * (pi / L) ^ 2)"
  have L0: "L \<noteq> 0" using L by simp
  have L2: "0 < L ^ 2" using L by simp
  have r_eq: "r = 361 * tmax / (900 * L ^ 2)"
    using L0 by (simp add: r_def power2_eq_square field_simps)
  have r0: "0 \<le> r" unfolding r_eq using t L2 by simp
  have r_half: "r \<le> 1 / 2"
    unfolding r_eq using small L2 by (simp add: pos_divide_le_eq)
  have c0: "0 \<le> c" and c2: "c \<le> 2" using r0 r_half by (simp_all add: c_def)
  have x0: "0 \<le> x" and x1: "x \<le> 2 / 19"
    using pi_gt_zero pi_less_4 by (simp_all add: x_def)
  have g_eq: "g = 1 - c * (sin x) ^ 2"
  proof -
    have "pi / real (20 - 1) = 2 * x" by (simp add: x_def)
    then have "cos (pi / real (20 - 1)) = 1 - 2 * (sin x) ^ 2" by (simp only: cos_double_sin)
    then show ?thesis by (simp add: g_def c_def)
  qed
  have e_eq: "e = exp (- (9 * (c * x ^ 2)))"
  proof -
    have "tmax * (1 / 100) * (pi / L) ^ 2 = 9 * (c * x ^ 2)"
      using L0 by (simp add: c_def r_eq x_def power2_eq_square field_simps)
    then show ?thesis by (simp add: e_def)
  qed
  have close: "\<bar>g ^ 9 - e\<bar> \<le> 1 / 100"
    unfolding g_eq e_eq using c0 c2 x0 x1 by (rule decay_factor_close)
  have lin: "linspace 0 L 20 = Inr xs" by (simp add: xs_def linspace_20)
  have ini: "initial_profile L xs = Inr (sine_mode 20 1)"
    unfolding xs_def using L0 by (rule initial_profile_sine_mode)
  have dx: "L / of_int (20 - 1) \<noteq> 0" using L0 by simp
  have rr: "(1 / 100) * (tmax / of_int (10 - 1)) / (L / of_int (20 - 1)) ^ 2 \<le> 1 / 2"
    using r_half by (simp add: r_def)
  have "heat (sine_mode 20 1) 10 20 (1 / 100) L tmax
          = heat_loop (nat (10 - 1)) (sine_mode 20 1) (L / of_int (20 - 1))
              (tmax / of_int (10 - 1)) (1 / 100)"
    by (rule heat_unfold) simp_all
  also have "\<dots> = Inr (sine_mode 20 (1 * (1 - 2 * ((1 / 100) * (tmax / of_int (10 - 1))
                         / (L / of_int (20 - 1)) ^ 2) * (1 - cos (pi / real (20 - 1)))) ^ nat (10 - 1)))"
    using dx rr by (intro heat_loop_sine_mode) simp_all
  also have "\<dots> = Inr (sine_mode 20 (g ^ 9))"
    by (simp add: g_def r_def)
  finally have run: "heat (sine_mode 20 1) 10 20 (1 / 100) L tmax = Inr (sine_mode 20 (g ^ 9))" .
  have "\<bar>sine_mode 20 (g ^ 9) ! i - sin (pi * (xs ! i) / L) * e\<bar> \<le> 1 / 100"
    if i: "1 \<le> i \<and> i \<le> 18" for i
  proof -
    define s where "s = sin (pi * real i / real (20 - 1))"
    from i have i20: "i < 20" by simp
    have v: "sine_mode 20 (g ^ 9) ! i = g ^ 9 * s"
      using i20 unfolding sine_mode_def s_def by simp
    have "pi * (xs ! i) / L = pi * real i / real (20 - 1)"
      using i20 L0 by (simp add: xs_def)
    then have a: "sin (pi * (xs ! i) / L) = s" unfolding s_def by (rule arg_cong)
    have "\<bar>g ^ 9 * s - s * e\<bar> = \<bar>s\<bar> * \<bar>g ^ 9 - e\<bar>"
      by (simp add: abs_mult [symmetric] algebra_simps)
    also have "\<dots> \<le> 1 * (1 / 100)"
      using close by (intro mult_mono) (simp_all add: s_def)
    finally show ?thesis unfolding v a by simp
  qed
  moreover have "length xs = 20" by (simp add: xs_def)
  moreover have "length (sine_mode 20 (g ^ 9)) = 20" by (simp add: sine_mode_def)
  ultimately show ?thesis using lin ini run unfolding e_def by blast
qed

text \<open>
  Claim C8. The test's initial profile samples \<open>sin (pi * x / L)\<close> at the 20 points of
  \<open>linspace 0 L 20\<close>, with both boundary entries set to zero. With \<open>nt = 10\<close>, \<open>nx = 20\<close>,
  \<open>alpha = 0.01\<close> and \<open>(L, tmax)\<close> one of \<open>(1, 0.5)\<close>, \<open>(2, 0.5)\<close>, \<open>(1, 1)\<close>, \<^const>\<open>heat\<close>
  returns a profile of 20 entries, and each interior entry \<open>i\<close> in \<open>1..18\<close> differs from
  \<open>sin (pi * x\<^sub>i / L) * exp (- tmax * alpha * (pi / L)\<^sup>2)\<close> at the grid point \<open>x\<^sub>i\<close> by at most
  \<open>0.01\<close>, in exact real arithmetic.
\<close>

theorem heat_within_tolerance_of_analytical:
  assumes "(L, tmax) \<in> {(1, 1 / 2), (2, 1 / 2), (1, 1)}"
  shows "\<exists>xs u v. linspace 0 L 20 = Inr xs \<and> initial_profile L xs = Inr u
            \<and> heat u 10 20 (1 / 100) L tmax = Inr v
            \<and> length xs = 20 \<and> length v = 20
            \<and> (\<forall>i. 1 \<le> i \<and> i \<le> 18 \<longrightarrow>
                  \<bar>v ! i - sin (pi * (xs ! i) / L) * exp (- tmax * (1 / 100) * (pi / L) ^ 2)\<bar>
                    \<le> 1 / 100)"
proof -
  from assms have "0 < L \<and> 0 \<le> tmax \<and> 361 * tmax \<le> 450 * L ^ 2" by auto
  then show ?thesis using test_heat_close by blast
qed

theorem heat_within_tolerance_of_analytical_witness:
  "((1::real), (1 / 2 ::real)) \<in> {(1, 1 / 2), (2, 1 / 2), (1, 1)}
   \<and> (\<exists>xs u v. linspace 0 1 20 = Inr xs \<and> initial_profile 1 xs = Inr u
          \<and> heat u 10 20 (1 / 100) 1 (1 / 2) = Inr v
          \<and> xs ! 1 = 1 / 19
          \<and> \<bar>v ! 1 - sin (pi * (xs ! 1) / 1) * exp (- (1 / 2) * (1 / 100) * (pi / 1) ^ 2)\<bar>
               \<le> 1 / 100)"
proof -
  have m: "((1::real), (1 / 2 ::real)) \<in> {(1, 1 / 2), (2, 1 / 2), (1, 1)}" by simp
  from heat_within_tolerance_of_analytical [OF m] obtain xs u v
    where lin: "linspace 0 1 20 = Inr xs" and ini: "initial_profile 1 xs = Inr u"
      and run: "heat u 10 20 (1 / 100) 1 (1 / 2) = Inr v"
      and tol: "\<forall>i. 1 \<le> i \<and> i \<le> 18 \<longrightarrow>
                  \<bar>v ! i - sin (pi * (xs ! i) / 1) * exp (- (1 / 2) * (1 / 100) * (pi / 1) ^ 2)\<bar>
                    \<le> 1 / 100"
    by blast
  from lin have "xs ! 1 = 1 / 19" by (auto simp add: linspace_def)
  moreover from tol have "\<bar>v ! 1 - sin (pi * (xs ! 1) / 1) * exp (- (1 / 2) * (1 / 100) * (pi / 1) ^ 2)\<bar>
               \<le> 1 / 100" by simp
  ultimately show ?thesis using m lin ini run by blast
qed

section \<open>Rounding to the nearest double\<close>


lemma rhe_close: "\<bar>of_int (rhe q) - q\<bar> \<le> 1 / 2"
proof -
  have "of_int \<lfloor>q\<rfloor> \<le> q" and "q < of_int \<lfloor>q\<rfloor> + 1" by linarith+
  then show ?thesis by (auto simp: rhe_def Let_def)
qed

lemma rhe_ge: "of_int a \<le> q \<Longrightarrow> a \<le> rhe q"
proof -
  assume "of_int a \<le> q"
  then have "a \<le> \<lfloor>q\<rfloor>" by (simp add: le_floor_iff)
  then show ?thesis by (auto simp: rhe_def Let_def)
qed


lemma rn_zero: "rn 0 = 0"
  by (simp add: rn_def)

lemma rn_eval:
  assumes "x \<noteq> 0" and "2 powr of_int k \<le> \<bar>x\<bar>" and "\<bar>x\<bar> < 2 powr (of_int k + 1)"
  shows "rn x = of_int (rhe (x * 2 powr (52 - of_int k))) * 2 powr (of_int k - 52)"
proof -
  have "\<lfloor>log 2 \<bar>x\<bar>\<rfloor> = k"
    using assms by (subst floor_log_eq_powr_iff) simp_all
  then show ?thesis using assms(1) by (simp add: rn_def)
qed

lemma expo_bounds:
  assumes "x \<noteq> 0"
  shows "2 powr of_int \<lfloor>log 2 \<bar>x\<bar>\<rfloor> \<le> \<bar>x\<bar>" and "\<bar>x\<bar> < 2 powr (of_int \<lfloor>log 2 \<bar>x\<bar>\<rfloor> + 1)"
  using assms floor_log_eq_powr_iff [of "\<bar>x\<bar>" 2 "\<lfloor>log 2 \<bar>x\<bar>\<rfloor>"] by simp_all

lemma rn_error: "\<bar>rn x - x\<bar> \<le> \<bar>x\<bar> / 2 ^ 53"
proof (cases "x = 0")
  case True
  then show ?thesis by (simp add: rn_def)
next
  case False
  define e :: real where "e = of_int \<lfloor>log 2 \<bar>x\<bar>\<rfloor>"
  define s where "s = 2 powr (e - 52)"
  define q where "q = x * 2 powr (52 - e)"
  have s: "0 < s" by (simp add: s_def)
  have qs: "q * s = x" by (simp add: q_def s_def powr_add [symmetric])
  have lo: "2 powr e \<le> \<bar>x\<bar>" using expo_bounds(1) [OF False] by (simp add: e_def)
  have "rn x = of_int (rhe q) * s" using False by (simp add: rn_def q_def s_def e_def)
  then have "rn x - x = (of_int (rhe q) - q) * s" using qs by (simp add: algebra_simps)
  then have "\<bar>rn x - x\<bar> = \<bar>of_int (rhe q) - q\<bar> * s" using s by (simp add: abs_mult)
  also have "\<dots> \<le> (1 / 2) * s" using rhe_close s by (intro mult_right_mono) simp_all
  also have "\<dots> = 2 powr e / 2 ^ 53"
  proof -
    have "2 powr (e - 52) = 2 powr e / 2 powr 52" by (simp add: powr_diff)
    then show ?thesis by (simp add: s_def)
  qed
  also have "\<dots> \<le> \<bar>x\<bar> / 2 ^ 53" using lo by (simp add: divide_right_mono)
  finally show ?thesis .
qed

lemma rn_nonneg: "0 \<le> x \<Longrightarrow> 0 \<le> rn x"
proof -
  assume x: "0 \<le> x"
  have "0 \<le> rhe (x * 2 powr (52 - of_int \<lfloor>log 2 \<bar>x\<bar>\<rfloor>))"
    using x by (intro rhe_ge) simp
  then show ?thesis by (simp add: rn_def)
qed







lemma rn_eval_num:
  assumes "x \<noteq> 0" and "2 powr of_int k \<le> \<bar>x\<bar>" and "\<bar>x\<bar> < 2 powr (of_int k + 1)"
    and "rhe (x * 2 powr (52 - of_int k)) = m"
  shows "rn x = of_int m * 2 powr (of_int k - 52)"
  using rn_eval [OF assms(1-3)] assms(4) by simp

subsection \<open>The rounding at the values used below\<close>

lemma rn_1: "rn (1) = 1"
proof -
  have "rn (1) = of_int 4503599627370496 * 2 powr (of_int 0 - 52)"
    by (rule rn_eval_num) (simp_all add: powr_neg_numeral rhe_def Let_def)
  then show ?thesis by (simp add: powr_neg_numeral)
qed

lemma rn_half: "rn (1 / 2) = 1 / 2"
proof -
  have "rn (1 / 2) = of_int 4503599627370496 * 2 powr (of_int (- 1) - 52)"
    by (rule rn_eval_num) (simp_all add: powr_neg_numeral rhe_def Let_def)
  then show ?thesis by (simp add: powr_neg_numeral)
qed

lemma rn_3: "rn (3) = 3"
proof -
  have "rn (3) = of_int 6755399441055744 * 2 powr (of_int 1 - 52)"
    by (rule rn_eval_num) (simp_all add: powr_neg_numeral rhe_def Let_def)
  then show ?thesis by (simp add: powr_neg_numeral)
qed


lemma rn_45: "rn (45) = 45"
proof -
  have "rn (45) = of_int 6333186975989760 * 2 powr (of_int 5 - 52)"
    by (rule rn_eval_num) (simp_all add: powr_neg_numeral rhe_def Let_def)
  then show ?thesis by (simp add: powr_neg_numeral)
qed

lemma rn_c2_prod: "rn (40564819207303345351494129942527 / 81129638414606681695789005144064) = 1 / 2"
proof -
  have "rn (40564819207303345351494129942527 / 81129638414606681695789005144064) = of_int 4503599627370496 * 2 powr (of_int (- 1) - 52)"
    by (rule rn_eval_num) (simp_all add: powr_neg_numeral rhe_def Let_def)
  then show ?thesis by (simp add: powr_neg_numeral)
qed

lemma rn_c5_dx: "rn (2 / 3) = 6004799503160661 / 9007199254740992"
proof -
  have "rn (2 / 3) = of_int 6004799503160661 * 2 powr (of_int (- 1) - 52)"
    by (rule rn_eval_num) (simp_all add: powr_neg_numeral rhe_def Let_def)
  then show ?thesis by (simp add: powr_neg_numeral)
qed

lemma rn_c5_dt: "rn (2 / 45) = 6405119470038039 / 144115188075855872"
proof -
  have "rn (2 / 45) = of_int 6405119470038039 * 2 powr (of_int (- 5) - 52)"
    by (rule rn_eval_num) (simp_all add: powr_neg_numeral rhe_def Let_def)
  then show ?thesis by (simp add: powr_neg_numeral)
qed

lemma rn_c5_prod: "rn (32025597350190195 / 144115188075855872) = 8006399337547549 / 36028797018963968"
proof -
  have "rn (32025597350190195 / 144115188075855872) = of_int 8006399337547549 * 2 powr (of_int (- 3) - 52)"
    by (rule rn_eval_num) (simp_all add: powr_neg_numeral rhe_def Let_def)
  then show ?thesis by (simp add: powr_neg_numeral)
qed

lemma rn_c5_sq: "rn (36057617073158521194928777956921 / 81129638414606681695789005144064) = 2001599834386887 / 4503599627370496"
proof -
  have "rn (36057617073158521194928777956921 / 81129638414606681695789005144064) = of_int 8006399337547548 * 2 powr (of_int (- 2) - 52)"
    by (rule rn_eval_num) (simp_all add: powr_neg_numeral rhe_def Let_def)
  then show ?thesis by (simp add: powr_neg_numeral)
qed

lemma rn_c5_ratio: "rn (8006399337547549 / 16012798675095096) = 4503599627370497 / 9007199254740992"
proof -
  have "rn (8006399337547549 / 16012798675095096) = of_int 4503599627370497 * 2 powr (of_int (- 1) - 52)"
    by (rule rn_eval_num) (simp_all add: powr_neg_numeral rhe_def Let_def)
  then show ?thesis by (simp add: powr_neg_numeral)
qed








lemma rn_2: "rn (2) = 2"
proof -
  have "rn (2) = of_int 4503599627370496 * 2 powr (of_int 1 - 52)"
    by (rule rn_eval_num) (simp_all add: powr_neg_numeral rhe_def Let_def)
  then show ?thesis by (simp add: powr_neg_numeral)
qed

lemma rn_4: "rn (4) = 4"
proof -
  have "rn (4) = of_int 4503599627370496 * 2 powr (of_int 2 - 52)"
    by (rule rn_eval_num) (simp_all add: powr_neg_numeral rhe_def Let_def)
  then show ?thesis by (simp add: powr_neg_numeral)
qed

lemma rn_quarter: "rn (1 / 4) = 1 / 4"
proof -
  have "rn (1 / 4) = of_int 4503599627370496 * 2 powr (of_int (- 2) - 52)"
    by (rule rn_eval_num) (simp_all add: powr_neg_numeral rhe_def Let_def)
  then show ?thesis by (simp add: powr_neg_numeral)
qed

lemma rn_c2_dx: "rn (1 / 25) = 5764607523034235 / 144115188075855872"
proof -
  have "rn (1 / 25) = of_int 5764607523034235 * 2 powr (of_int (- 5) - 52)"
    by (rule rn_eval_num) (simp_all add: powr_neg_numeral rhe_def Let_def)
  then show ?thesis by (simp add: powr_neg_numeral)
qed

lemma rn_c2_dt: "rn (1 / 50) = 5764607523034235 / 288230376151711744"
proof -
  have "rn (1 / 50) = of_int 5764607523034235 * 2 powr (of_int (- 6) - 52)"
    by (rule rn_eval_num) (simp_all add: powr_neg_numeral rhe_def Let_def)
  then show ?thesis by (simp add: powr_neg_numeral)
qed

lemma rn_c2_alpha: "rn (1 / 10) = 3602879701896397 / 36028797018963968"
proof -
  have "rn (1 / 10) = of_int 7205759403792794 * 2 powr (of_int (- 4) - 52)"
    by (rule rn_eval_num) (simp_all add: powr_neg_numeral rhe_def Let_def)
  then show ?thesis by (simp add: powr_neg_numeral)
qed

lemma rn_c2_at: "rn (20769187434139312099389054151295 / 10384593717069655257060992658440192) = 1152921504606847 / 576460752303423488"
proof -
  have "rn (20769187434139312099389054151295 / 10384593717069655257060992658440192) = of_int 4611686018427388 * 2 powr (of_int (- 9) - 52)"
    by (rule rn_eval_num) (simp_all add: powr_neg_numeral rhe_def Let_def)
  then show ?thesis by (simp add: powr_neg_numeral)
qed

section \<open>The gate and the loop in double-precision arithmetic\<close>

lemmas fl_defs = step_fl_def ratio_fl_def pow_rounded_def stencil_fl_def

lemma step_fl_failure:
  assumes "ratio_fl pw dx dt alpha = Inl e"
  shows "step_fl pw u dx dt alpha = Inl e"
  using assms by (simp add: step_fl_def)

lemma step_fl_unstable:
  assumes "ratio_fl pw dx dt alpha = Inr r" and "r > 1 / 2"
  shows "step_fl pw u dx dt alpha = Inl Exception"
  using assms by (simp add: step_fl_def)

lemma step_fl_stable:
  assumes "ratio_fl pw dx dt alpha = Inr r" and "r \<le> 1 / 2"
  shows "step_fl pw u dx dt alpha =
           Inr (take 1 u
                @ map (\<lambda>i. stencil_fl r (u ! (i + 1)) (u ! i) (u ! (i - 1))) [1..<length u - 1]
                @ drop (length u - 1) u)"
  using assms by (simp add: step_fl_def)


lemma heat_loop_fl_failure:
  assumes "ratio_fl pw dx dt alpha = Inl e"
  shows "heat_loop_fl pw (Suc n) u dx dt alpha = Inl e"
  by (simp add: step_fl_failure [OF assms])

lemma heat_loop_fl_unstable:
  assumes "ratio_fl pw dx dt alpha = Inr r" and "r > 1 / 2"
  shows "heat_loop_fl pw (Suc n) u dx dt alpha = Inl Exception"
  by (simp add: step_fl_unstable [OF assms])

lemma heat_loop_fl_succeeds:
  assumes "ratio_fl pw dx dt alpha = Inr r" and "r \<le> 1 / 2"
  shows "\<exists>v. heat_loop_fl pw n u dx dt alpha = Inr v"
proof (induction n arbitrary: u)
  case 0
  show ?case by simp
next
  case (Suc n)
  show ?case using Suc.IH by (simp add: step_fl_stable [OF assms])
qed

lemma heat_fl_unfold:
  assumes "nt \<noteq> 1" and "nx \<noteq> 1"
  shows "heat_fl pw u nt nx alpha L tmax
           = heat_loop_fl pw (nat (nt - 1)) u (rn (L / rn (of_int (nx - 1))))
               (rn (tmax / rn (of_int (nt - 1)))) alpha"
  using assms by (simp add: heat_fl_def Let_def)

lemma heat_loop_fl_first_failure:
  assumes "step_fl pw u dx dt alpha = Inl e" and "0 < n"
  shows "heat_loop_fl pw n u dx dt alpha = Inl e"
  using assms by (cases n) simp_all

lemma rn_above_half:
  assumes "1 \<le> q"
  shows "1 / 2 < rn q"
proof -
  define e where "e = \<bar>q\<bar> / 2 ^ 53"
  have "\<bar>rn q - q\<bar> \<le> e" unfolding e_def by (rule rn_error)
  moreover have "e < q / 2"
  proof -
    have "q / 2 ^ 53 < q / 2" using assms by (intro divide_strict_left_mono) simp_all
    then show ?thesis using assms by (simp add: e_def)
  qed
  ultimately show ?thesis using assms by linarith
qed

lemma step_fl_concrete_unstable:
  assumes pw: "pw (rn (4 / 100)) = Inr d"
    and near: "\<bar>d - (rn (4 / 100)) ^ 2\<bar> \<le> (rn (4 / 100)) ^ 2 / 2 ^ 52"
  shows "step_fl pw [0, 1, 1, 0] (rn (4 / 100)) (rn (2 / 100)) (rn (1 / 10)) = Inl Exception"
proof -
  define X :: real where "X = 5764607523034235 / 144115188075855872"
  define P :: real where "P = 1152921504606847 / 576460752303423488"
  have x: "rn (4 / 100) = X" using rn_c2_dx by (simp add: X_def)
  have t: "rn (2 / 100) = 5764607523034235 / 288230376151711744" using rn_c2_dt by simp
  have a: "rn (1 / 10) = 3602879701896397 / 36028797018963968" by (rule rn_c2_alpha)
  have p: "rn (rn (1 / 10) * rn (2 / 100)) = P" unfolding a t using rn_c2_at by (simp add: P_def)
  have X2: "0 < X ^ 2" by (simp add: X_def)
  from near have "\<bar>d - X ^ 2\<bar> \<le> X ^ 2 / 2 ^ 52" unfolding x .
  then have lo: "X ^ 2 - X ^ 2 / 2 ^ 52 \<le> d" and hi: "d \<le> X ^ 2 + X ^ 2 / 2 ^ 52"
    by linarith+
  have "X ^ 2 / 2 ^ 52 < X ^ 2" using X2 by (simp add: field_simps)
  with lo have d0: "0 < d" by linarith
  have "X ^ 2 + X ^ 2 / 2 ^ 52 \<le> P" by (simp add: X_def P_def power2_eq_square)
  with hi have "d \<le> P" by linarith
  then have "1 \<le> P / d" using d0 by (simp add: pos_le_divide_eq)
  then have g: "1 / 2 < rn (P / d)" by (rule rn_above_half)
  have "ratio_fl pw (rn (4 / 100)) (rn (2 / 100)) (rn (1 / 10)) = Inr (rn (P / d))"
    using pw d0 p by (simp add: ratio_fl_def)
  then show ?thesis using g by (rule step_fl_unstable)
qed

section \<open>Claims that turn on rounding\<close>

text \<open>
  Claim C2 says that \<^verbatim>\<open>step\<close> fails whenever \<open>alpha * dt / dx\<^sup>2\<close> exceeds one half. The
  gate tests the ratio as computed: for \<open>dx = 1\<close>, \<open>dt = 0.5 + 2\<^sup>-\<^sup>5\<^sup>3\<close>, \<open>alpha = 1 - 2\<^sup>-\<^sup>5\<^sup>3\<close>
  (all three are doubles) the exact ratio is above one half, the product rounds to
  \<open>0.5\<close>, and \<^verbatim>\<open>step\<close> returns a profile.
\<close>

theorem step_gate_exact_ratio_counterexample:
  "(1 - 1 / 2 ^ 53) * (1 / 2 + 1 / 2 ^ 53) / 1 ^ 2 > (1 / 2 :: real)
   \<and> step_fl pow_rounded [0, 1, 0] 1 (1 / 2 + 1 / 2 ^ 53) (1 - 1 / 2 ^ 53) = Inr [0, 0, 0]"
  by (simp add: fl_defs rn_zero rn_1 rn_half rn_c2_prod numeral_eq_Suc)

text \<open>
  Claim C2, amended: whenever the ratio that \<^verbatim>\<open>step\<close> computes in double arithmetic,
  the rounded quotient of the rounded product \<^verbatim>\<open>alpha * dt\<close> by \<^verbatim>\<open>dx ** 2\<close>, is defined and
  exceeds one half, \<^verbatim>\<open>step\<close> raises the exception and returns no profile, for every
  profile. At the profile \<open>[0, 1, 1, 0]\<close> with \<open>dx = 0.04\<close>, \<open>dt = 0.02\<close>, \<open>alpha = 0.1\<close> (the
  doubles nearest these decimals) it raises the exception, whatever value within a
  relative \<open>2\<^sup>-\<^sup>5\<^sup>2\<close> of the exact square the library returns for \<^verbatim>\<open>dx ** 2\<close>.
\<close>

theorem step_fl_instability_gate:
  "(ratio_fl pw dx dt alpha = Inr r \<and> r > 1 / 2 \<longrightarrow> step_fl pw u dx dt alpha = Inl Exception)
   \<and> (pw (rn (4 / 100)) = Inr d \<and> \<bar>d - (rn (4 / 100)) ^ 2\<bar> \<le> (rn (4 / 100)) ^ 2 / 2 ^ 52 \<longrightarrow>
        step_fl pw [0, 1, 1, 0] (rn (4 / 100)) (rn (2 / 100)) (rn (1 / 10)) = Inl Exception)"
  using step_fl_unstable step_fl_concrete_unstable by blast

theorem step_fl_instability_gate_witness:
  "ratio_fl pow_rounded 1 1 3 = Inr 3 \<and> (3 :: real) > 1 / 2
   \<and> step_fl pow_rounded [5, 6, 7] 1 1 3 = Inl Exception
   \<and> pow_rounded (rn (4 / 100)) = Inr (rn ((rn (4 / 100)) ^ 2))
   \<and> \<bar>rn ((rn (4 / 100)) ^ 2) - (rn (4 / 100)) ^ 2\<bar> \<le> (rn (4 / 100)) ^ 2 / 2 ^ 52
   \<and> step_fl pow_rounded [0, 1, 1, 0] (rn (4 / 100)) (rn (2 / 100)) (rn (1 / 10)) = Inl Exception"
proof -
  have r: "ratio_fl pow_rounded 1 1 3 = Inr 3"
    by (simp add: ratio_fl_def pow_rounded_def rn_1 rn_3)
  have p: "pow_rounded (rn (4 / 100)) = Inr (rn ((rn (4 / 100)) ^ 2))"
    by (simp add: pow_rounded_def)
  have "\<bar>rn ((rn (4 / 100)) ^ 2) - (rn (4 / 100)) ^ 2\<bar> \<le> \<bar>(rn (4 / 100)) ^ 2\<bar> / 2 ^ 53"
    by (rule rn_error)
  also have "\<dots> \<le> (rn (4 / 100)) ^ 2 / 2 ^ 52"
    by (simp add: field_simps)
  finally have e: "\<bar>rn ((rn (4 / 100)) ^ 2) - (rn (4 / 100)) ^ 2\<bar> \<le> (rn (4 / 100)) ^ 2 / 2 ^ 52" .
  show ?thesis
    using step_fl_instability_gate [of pow_rounded 1 1 3 3 "[5, 6, 7]" "rn ((rn (4 / 100)) ^ 2)"]
      r p e by simp
qed

text \<open>
  Claim C5 says that, for \<open>nt \<ge> 2\<close>, \<open>nx \<ge> 2\<close> and positive \<open>alpha\<close>, \<open>L\<close>, \<open>tmax\<close>,
  \<^verbatim>\<open>heat\<close> never fails when the derived ratio is at most one half. With \<open>nt = 46\<close>,
  \<open>nx = 4\<close>, \<open>alpha = 5\<close>, \<open>L = 2\<close>, \<open>tmax = 2\<close> the derived ratio is exactly one half; the
  code computes \<open>0.5 + 2\<^sup>-\<^sup>5\<^sup>3\<close> from the rounded \<open>dx\<close> and \<open>dt\<close> and raises the exception.
\<close>

theorem heat_exact_ratio_counterexample:
  "(5 :: real) * (2 / of_int (46 - 1)) / (2 / of_int (4 - 1)) ^ 2 \<le> 1 / 2
   \<and> heat_fl pow_rounded [0, 1, 1, 0] 46 4 5 2 2 = Inl Exception"
proof -
  have "step_fl pow_rounded [0, 1, 1, 0] (6004799503160661 / 9007199254740992)
          (6405119470038039 / 144115188075855872) 5 = Inl Exception"
    by (simp add: fl_defs rn_c5_prod rn_c5_sq rn_c5_ratio power2_eq_square)
  then have "heat_loop_fl pow_rounded 45 [0, 1, 1, 0] (6004799503160661 / 9007199254740992)
          (6405119470038039 / 144115188075855872) 5 = Inl Exception"
    by (rule heat_loop_fl_first_failure) simp
  then show ?thesis
    by (simp add: heat_fl_def rn_3 rn_45 rn_c5_dx rn_c5_dt power2_eq_square)
qed

text \<open>
  Claim C5, amended: for \<open>nt \<ge> 2\<close> and \<open>nx \<ge> 2\<close>, let \<open>r\<close> be the ratio that \<^verbatim>\<open>step\<close> computes
  in double arithmetic from \<open>dx = L / (nx - 1)\<close> and \<open>dt = tmax / (nt - 1)\<close>, themselves
  rounded. If \<open>r\<close> is defined, \<^verbatim>\<open>heat\<close> raises the exception of \<^verbatim>\<open>step\<close> exactly when
  \<open>r > 0.5\<close> and returns a profile exactly when \<open>r \<le> 0.5\<close>, for every profile. If computing
  \<open>r\<close> raises (\<^verbatim>\<open>OverflowError\<close> from \<^verbatim>\<open>dx ** 2\<close>, or \<^verbatim>\<open>ZeroDivisionError\<close> when
  \<^verbatim>\<open>dx ** 2\<close> is zero), \<^verbatim>\<open>heat\<close> fails with that error.
\<close>

theorem heat_fl_fails_iff_computed_ratio:
  assumes "2 \<le> nt" and "2 \<le> nx"
  shows "(ratio_fl pw (rn (L / rn (of_int (nx - 1)))) (rn (tmax / rn (of_int (nt - 1)))) alpha = Inl e
            \<longrightarrow> heat_fl pw u nt nx alpha L tmax = Inl e)
       \<and> (ratio_fl pw (rn (L / rn (of_int (nx - 1)))) (rn (tmax / rn (of_int (nt - 1)))) alpha = Inr r
            \<longrightarrow> (heat_fl pw u nt nx alpha L tmax = Inl Exception \<longleftrightarrow> r > 1 / 2)
               \<and> ((\<exists>v. heat_fl pw u nt nx alpha L tmax = Inr v) \<longleftrightarrow> r \<le> 1 / 2))"
proof -
  define dx where "dx = rn (L / rn (of_int (nx - 1)))"
  define dt where "dt = rn (tmax / rn (of_int (nt - 1)))"
  from assms have ne: "nt \<noteq> 1" "nx \<noteq> 1" by simp_all
  from assms(1) obtain m where m: "nat (nt - 1) = Suc m"
    by (cases "nat (nt - 1)") simp_all
  have h: "heat_fl pw u nt nx alpha L tmax = heat_loop_fl pw (Suc m) u dx dt alpha"
    using heat_fl_unfold [OF ne] m by (simp add: dx_def dt_def)
  have 1: "heat_fl pw u nt nx alpha L tmax = Inl e" if "ratio_fl pw dx dt alpha = Inl e"
    unfolding h using that by (rule heat_loop_fl_failure)
  have 2: "(heat_fl pw u nt nx alpha L tmax = Inl Exception \<longleftrightarrow> r > 1 / 2)
           \<and> ((\<exists>v. heat_fl pw u nt nx alpha L tmax = Inr v) \<longleftrightarrow> r \<le> 1 / 2)"
    if rr: "ratio_fl pw dx dt alpha = Inr r"
  proof (cases "r > 1 / 2")
    case True
    then have "heat_fl pw u nt nx alpha L tmax = Inl Exception"
      unfolding h using rr heat_loop_fl_unstable by blast
    with True show ?thesis by simp
  next
    case False
    then have le: "r \<le> 1 / 2" by simp
    from heat_loop_fl_succeeds [OF rr le] obtain v where "heat_fl pw u nt nx alpha L tmax = Inr v"
      unfolding h by blast
    with False show ?thesis by simp
  qed
  show ?thesis using 1 2 unfolding dx_def dt_def by blast
qed

theorem heat_fl_fails_iff_computed_ratio_witness:
  "(2 :: int) \<le> 2 \<and> (2 :: int) \<le> 3
   \<and> ratio_fl pow_rounded (rn (1 / rn (of_int (3 - 1)))) (rn (1 / rn (of_int (2 - 1)))) 1 = Inr 4
   \<and> heat_fl pow_rounded [0, 1, 0] 2 3 1 1 1 = Inl Exception \<and> (4 :: real) > 1 / 2
   \<and> \<not> (\<exists>v. heat_fl pow_rounded [0, 1, 0] 2 3 1 1 1 = Inr v)
   \<and> ratio_fl (\<lambda>x. Inl OverflowError) (rn (1 / rn (of_int (3 - 1)))) (rn (1 / rn (of_int (2 - 1)))) 1
        = Inl OverflowError
   \<and> heat_fl (\<lambda>x. Inl OverflowError) [0, 1, 0] 2 3 1 1 1 = Inl OverflowError"
proof -
  have r: "ratio_fl pow_rounded (rn (1 / rn (of_int (3 - 1)))) (rn (1 / rn (of_int (2 - 1)))) 1 = Inr 4"
    by (simp add: ratio_fl_def pow_rounded_def rn_1 rn_2 rn_half rn_quarter rn_4 power2_eq_square)
  have o: "ratio_fl (\<lambda>x. Inl OverflowError) (rn (1 / rn (of_int (3 - 1)))) (rn (1 / rn (of_int (2 - 1)))) 1
        = Inl OverflowError"
    by (simp add: ratio_fl_def)
  show ?thesis
    using heat_fl_fails_iff_computed_ratio [of 2 3 pow_rounded 1 1 1 ZeroDivisionError "[0, 1, 0]" 4]
      heat_fl_fails_iff_computed_ratio [of 2 3 "\<lambda>x. Inl OverflowError" 1 1 1 OverflowError "[0, 1, 0]" 0]
      r o by simp
qed

section \<open>Constant profiles in double-precision arithmetic\<close>

subsection \<open>Accumulated rounding error of the stencil\<close>


















end
